theory Spec2Isabelle
  imports Complex_Main
begin

section \<open>Data model of fuellog.py\<close>

text \<open>
  The rows handed around by \<^verbatim>\<open>fuellog.py\<close> are the dictionaries built by
  \<^verbatim>\<open>read_rows\<close>: a \<^verbatim>\<open>datetime.date\<close>, three floats, a bool and the notes.
  Python floats are modelled as mathematical reals: rounding, infinities and NaN are
  outside the model. Every sum below is written in the order in which the source adds.
\<close>

record date =
  year :: int
  month :: int
  day :: int

record row =
  date :: date
  odometer_km :: real
  liters :: real
  price_per_liter_sek :: real
  full_fill :: bool
  notes_txt :: string

text \<open>The dictionary appended to \<^verbatim>\<open>cycles\<close> at lines 125-136; \<open>None\<close> is Python's \<^verbatim>\<open>None\<close>.\<close>

record cycle =
  start_date :: date
  end_date :: date
  start_odo :: real
  end_odo :: real
  distance_km :: real
  liters_used :: real
  l_per_100km :: "real option"
  cost_total_sek :: real
  cost_per_km_sek :: "real option"
  fills_count :: int

datatype error = TypeError | ZeroDivisionError

section \<open>Python built-ins used by the source\<close>

text \<open>\<^verbatim>\<open>sum(xs)\<close> starts from 0 and adds the elements from left to right.\<close>

definition py_sum :: "real list \<Rightarrow> real" where
  "py_sum xs = foldl (+) 0 xs"

text \<open>
  \<^verbatim>\<open>sum\<close> over values that may be \<^verbatim>\<open>None\<close>: adding \<^verbatim>\<open>None\<close> to a number raises
  \<^verbatim>\<open>TypeError\<close>.
\<close>

fun py_sum_opt :: "real \<Rightarrow> real option list \<Rightarrow> error + real" where
  "py_sum_opt acc [] = Inr acc"
| "py_sum_opt acc (None # xs) = Inl TypeError"
| "py_sum_opt acc (Some x # xs) = py_sum_opt (acc + x) xs"

text \<open>
  A format specification such as \<^verbatim>\<open>:.2f\<close> applied to \<^verbatim>\<open>None\<close> raises \<^verbatim>\<open>TypeError\<close>;
  applied to a float it renders the number (the rendering itself is not modelled).
\<close>

definition fmt_float :: "real option \<Rightarrow> error + real" where
  "fmt_float v = (case v of None \<Rightarrow> Inl TypeError | Some x \<Rightarrow> Inr x)"

text \<open>True division by an \<^verbatim>\<open>int\<close>: a zero divisor raises \<^verbatim>\<open>ZeroDivisionError\<close>.\<close>

definition py_div_len :: "real \<Rightarrow> nat \<Rightarrow> error + real" where
  "py_div_len s n = (if n = 0 then Inl ZeroDivisionError else Inr (s / real n))"

section \<open>cycles (lines 99-140)\<close>

text \<open>
  The block at lines 112-136, which builds one cycle from \<^verbatim>\<open>cycle_rows\<close>. It is only
  reached with the current row just appended, so \<^verbatim>\<open>cycle_rows[0]\<close> and
  \<^verbatim>\<open>cycle_rows[-1]\<close> exist.
\<close>

definition make_cycle :: "row list \<Rightarrow> cycle" where
  "make_cycle cycle_rows =
     (let start = hd cycle_rows;
          end_row = last cycle_rows;
          liters_used = py_sum (map liters (drop 1 cycle_rows));
          distance = odometer_km end_row - odometer_km start;
          total_cost = py_sum (map (\<lambda>x. liters x * price_per_liter_sek x) (drop 1 cycle_rows));
          l_per_100 = (if distance > 0 \<and> liters_used > 0
                       then Some (liters_used / distance * 100) else None);
          cost_per_km = (if distance > 0 \<and> liters_used > 0
                         then Some (total_cost / distance) else None)
      in \<lparr>start_date = date start,
          end_date = date end_row,
          start_odo = odometer_km start,
          end_odo = odometer_km end_row,
          distance_km = distance,
          liters_used = liters_used,
          l_per_100km = l_per_100,
          cost_total_sek = total_cost,
          cost_per_km_sek = cost_per_km,
          fills_count = int (length cycle_rows) - 1\<rparr>)"

text \<open>The three local variables of \<^verbatim>\<open>cycles\<close> that the loop updates.\<close>

record loop_state =
  cycles_acc :: "cycle list"
  buffer :: "row list"
  last_full :: "row option"

text \<open>One iteration of \<^verbatim>\<open>for r in rows\<close> (lines 105-139).\<close>

definition cycles_step :: "loop_state \<Rightarrow> row \<Rightarrow> loop_state" where
  "cycles_step st r =
     (let buf = buffer st @ [r] in
      if full_fill r then
        (case last_full st of
           None \<Rightarrow> \<lparr>cycles_acc = cycles_acc st, buffer = [r], last_full = Some r\<rparr>
         | Some prev \<Rightarrow>
             \<lparr>cycles_acc = cycles_acc st @ [make_cycle buf], buffer = [r], last_full = Some r\<rparr>)
      else \<lparr>cycles_acc = cycles_acc st, buffer = buf, last_full = last_full st\<rparr>)"

definition cycles_init :: loop_state where
  "cycles_init = \<lparr>cycles_acc = [], buffer = [], last_full = None\<rparr>"

definition cycles :: "row list \<Rightarrow> cycle list" where
  "cycles rows = cycles_acc (foldl cycles_step cycles_init rows)"

section \<open>stats (lines 142-167)\<close>

text \<open>The figures printed under the heading for all cycles (lines 159-167).\<close>

record totals =
  total_km :: real
  total_l :: real
  total_cost :: real
  avg_l100 :: real
  avg_cost_km :: real

text \<open>
  What \<^verbatim>\<open>stats\<close> prints: one of the two messages, or the latest cycle followed by the
  totals.
\<close>

datatype stats_output = NeedMoreRows | NeedTwoFulls | Report cycle totals

text \<open>
  \<^verbatim>\<open>stats\<close> on the rows returned by \<^verbatim>\<open>read_rows\<close>. The f-string of lines 155-157
  formats \<^verbatim>\<open>l_per_100km\<close> and then \<^verbatim>\<open>cost_per_km_sek\<close> of the latest cycle with
  \<^verbatim>\<open>:.2f\<close>; the averages of lines 160-161 divide by \<^verbatim>\<open>len(v)\<close>.
\<close>

definition stats :: "row list \<Rightarrow> error + stats_output" where
  "stats rows =
     (if length rows < 2 then Inr NeedMoreRows
      else let cs = cycles rows in
      if cs = [] then Inr NeedTwoFulls
      else let latest = last cs in
      case fmt_float (l_per_100km latest) of Inl e \<Rightarrow> Inl e | Inr _ \<Rightarrow>
      case fmt_float (cost_per_km_sek latest) of Inl e \<Rightarrow> Inl e | Inr _ \<Rightarrow>
      let v = filter (\<lambda>c. l_per_100km c \<noteq> None) cs in
      case py_sum_opt 0 (map l_per_100km v) of Inl e \<Rightarrow> Inl e | Inr s1 \<Rightarrow>
      case py_div_len s1 (length v) of Inl e \<Rightarrow> Inl e | Inr a1 \<Rightarrow>
      case py_sum_opt 0 (map cost_per_km_sek v) of Inl e \<Rightarrow> Inl e | Inr s2 \<Rightarrow>
      case py_div_len s2 (length v) of Inl e \<Rightarrow> Inl e | Inr a2 \<Rightarrow>
      Inr (Report latest
             \<lparr>total_km = py_sum (map distance_km v),
              total_l = py_sum (map liters_used v),
              total_cost = py_sum (map cost_total_sek v),
              avg_l100 = a1,
              avg_cost_km = a2\<rparr>))"

section \<open>show_last_cycle_consumption (lines 204-212)\<close>

text \<open>
  Called after a row is added: the latest cycle is printed, with \<^verbatim>\<open>l_per_100km\<close> and
  \<^verbatim>\<open>cost_per_km_sek\<close> formatted with \<^verbatim>\<open>:.2f\<close>, only when its \<^verbatim>\<open>l_per_100km\<close> is not
  \<^verbatim>\<open>None\<close>. The result is the cycle that is printed, if any.
\<close>

definition show_last_cycle_consumption :: "row list \<Rightarrow> error + cycle option" where
  "show_last_cycle_consumption rows =
     (let cs = cycles rows in
      if cs \<noteq> [] then
        (let latest = last cs in
         if l_per_100km latest \<noteq> None then
           (case fmt_float (l_per_100km latest) of Inl e \<Rightarrow> Inl e | Inr _ \<Rightarrow>
            case fmt_float (cost_per_km_sek latest) of Inl e \<Rightarrow> Inl e | Inr _ \<Rightarrow>
            Inr (Some latest))
         else Inr None)
      else Inr None)"

section \<open>month (lines 169-194)\<close>

text \<open>The three accumulators of the loop at lines 180-187.\<close>

record month_acc =
  acc_liters :: real
  acc_cost :: real
  acc_fills :: int

definition month_step :: "int \<Rightarrow> int \<Rightarrow> month_acc \<Rightarrow> row \<Rightarrow> month_acc" where
  "month_step y m a r =
     (if year (date r) = y \<and> month (date r) = m
      then \<lparr>acc_liters = acc_liters a + liters r,
            acc_cost = acc_cost a + liters r * price_per_liter_sek r,
            acc_fills = acc_fills a + 1\<rparr>
      else a)"

definition month_totals :: "row list \<Rightarrow> int \<Rightarrow> int \<Rightarrow> month_acc" where
  "month_totals rows y m =
     foldl (month_step y m) \<lparr>acc_liters = 0, acc_cost = 0, acc_fills = 0\<rparr> rows"

text \<open>Line 192: the distance of the cycles that end in the month.\<close>

definition month_km :: "row list \<Rightarrow> int \<Rightarrow> int \<Rightarrow> real" where
  "month_km rows y m =
     py_sum (map distance_km
       (filter (\<lambda>c. year (end_date c) = y \<and> month (end_date c) = m) (cycles rows)))"

text \<open>
  What \<^verbatim>\<open>month\<close> prints for the parsed year \<open>y\<close> and month \<open>m\<close>: the message for an
  empty log, or the totals line and, only when it is positive, the distance line.
\<close>

datatype month_output = NoData | MonthReport month_acc "real option"

definition month_cmd :: "row list \<Rightarrow> int \<Rightarrow> int \<Rightarrow> month_output" where
  "month_cmd rows y m =
     (if rows = [] then NoData
      else MonthReport (month_totals rows y m)
             (if month_km rows y m > 0 then Some (month_km rows y m) else None))"

section \<open>Sample logs\<close>

text \<open>
  Concrete logs on which the theorems below are instantiated: a log with one full fill, the
  log of three records with a partial fill in between, two full fills at the same odometer
  reading, two full fills with the odometer going backwards, and a log with three full fills.
\<close>

definition fill :: "int \<Rightarrow> int \<Rightarrow> int \<Rightarrow> real \<Rightarrow> real \<Rightarrow> real \<Rightarrow> bool \<Rightarrow> row" where
  "fill y m d odo l p f =
     \<lparr>date = \<lparr>year = y, month = m, day = d\<rparr>, odometer_km = odo, liters = l,
      price_per_liter_sek = p, full_fill = f, notes_txt = []\<rparr>"

definition log_single :: "row list" where
  "log_single = [fill 2025 1 1 1000 40 20 True]"

definition log_partial :: "row list" where
  "log_partial =
     [fill 2025 1 1 1000 40 20 True, fill 2025 1 15 1050 5 20 False,
      fill 2025 2 1 1500 35 20 True]"

definition log_same_odo :: "row list" where
  "log_same_odo = [fill 2025 1 1 1000 40 20 True, fill 2025 1 2 1000 10 20 True]"

definition log_rollback :: "row list" where
  "log_rollback = [fill 2025 1 1 1000 40 20 True, fill 2025 1 2 900 10 20 True]"

definition log_three :: "row list" where
  "log_three =
     [fill 2024 12 30 900 3 20 False, fill 2025 1 1 1000 40 20 True,
      fill 2025 1 15 1050 5 20 False, fill 2025 2 1 1500 35 20 True,
      fill 2025 2 20 1700 20 21 True]"

section \<open>The loop of cycles\<close>

lemma foldl_add_sum_list: "foldl (+) (a::real) xs = a + sum_list xs"
  by (induction xs arbitrary: a) auto

lemma py_sum_sum_list: "py_sum xs = sum_list xs"
  by (simp add: py_sum_def foldl_add_sum_list)

lemma cycles_step_partial:
  "\<not> full_fill r \<Longrightarrow>
   cycles_step st r = \<lparr>cycles_acc = cycles_acc st, buffer = buffer st @ [r], last_full = last_full st\<rparr>"
  by (simp add: cycles_step_def)

lemma cycles_step_first_full:
  "full_fill r \<Longrightarrow> last_full st = None \<Longrightarrow>
   cycles_step st r = \<lparr>cycles_acc = cycles_acc st, buffer = [r], last_full = Some r\<rparr>"
  by (simp add: cycles_step_def)

lemma cycles_step_next_full:
  "full_fill r \<Longrightarrow> last_full st = Some a \<Longrightarrow>
   cycles_step st r =
     \<lparr>cycles_acc = cycles_acc st @ [make_cycle (buffer st @ [r])], buffer = [r], last_full = Some r\<rparr>"
  by (simp add: cycles_step_def)

lemma run_partials:
  "\<forall>r\<in>set ps. \<not> full_fill r \<Longrightarrow>
   foldl cycles_step st ps =
     \<lparr>cycles_acc = cycles_acc st, buffer = buffer st @ ps, last_full = last_full st\<rparr>"
proof (induction ps arbitrary: st)
  case Nil
  then show ?case by simp
next
  case (Cons p ps)
  then show ?case by (simp add: cycles_step_partial)
qed

lemma cycles_step_acc_grows:
  "\<exists>ext. cycles_acc (cycles_step st r) = cycles_acc st @ ext"
  by (simp add: cycles_step_def Let_def split: option.splits)

lemma run_acc_grows:
  "\<exists>ext. cycles_acc (foldl cycles_step st rows) = cycles_acc st @ ext"
proof (induction rows arbitrary: st)
  case Nil
  then show ?case by simp
next
  case (Cons r rows)
  obtain e1 where e1: "cycles_acc (cycles_step st r) = cycles_acc st @ e1"
    using cycles_step_acc_grows by blast
  obtain e2 where "cycles_acc (foldl cycles_step (cycles_step st r) rows) = cycles_acc (cycles_step st r) @ e2"
    using Cons.IH by blast
  then show ?case using e1 by simp
qed

lemma run_count:
  "length (cycles_acc (foldl cycles_step cycles_init pre)) = length (filter full_fill pre) - 1 \<and>
   (last_full (foldl cycles_step cycles_init pre) = None \<longleftrightarrow> filter full_fill pre = [])"
proof (induction pre rule: rev_induct)
  case Nil
  then show ?case by (simp add: cycles_init_def)
next
  case (snoc r pre)
  show ?case
  proof (cases "full_fill r")
    case False
    then show ?thesis using snoc by (simp add: cycles_step_partial)
  next
    case True
    show ?thesis
    proof (cases "last_full (foldl cycles_step cycles_init pre)")
      case None
      then show ?thesis using snoc True by (simp add: cycles_step_first_full)
    next
      case (Some a)
      then have "filter full_fill pre \<noteq> []" using snoc by auto
      then have "length (filter full_fill pre) \<noteq> 0" by simp
      then show ?thesis using snoc True Some by (simp add: cycles_step_next_full)
    qed
  qed
qed

lemma cycles_length: "length (cycles rows) = length (filter full_fill rows) - 1"
  using run_count[of rows] by (simp add: cycles_def)

lemma after_anchor:
  assumes "full_fill s"
  shows "\<exists>C. length C = length (filter full_fill pre) \<and>
     foldl cycles_step cycles_init (pre @ [s]) = \<lparr>cycles_acc = C, buffer = [s], last_full = Some s\<rparr>"
proof (cases "last_full (foldl cycles_step cycles_init pre)")
  case None
  then have "filter full_fill pre = []" using run_count[of pre] by simp
  then have "length (cycles_acc (foldl cycles_step cycles_init pre)) = length (filter full_fill pre)"
    using run_count[of pre] by simp
  then show ?thesis using None assms by (simp add: cycles_step_first_full)
next
  case (Some a)
  then have "filter full_fill pre \<noteq> []" using run_count[of pre] by auto
  then have "length (filter full_fill pre) \<noteq> 0" by simp
  then have "length (cycles_acc (foldl cycles_step cycles_init pre)) + 1 = length (filter full_fill pre)"
    using run_count[of pre] by simp
  then show ?thesis using Some assms by (simp add: cycles_step_next_full)
qed

lemma cycles_nth_bounded:
  assumes rows: "rows = pre @ s # mid @ e # post"
    and s: "full_fill s" and e: "full_fill e"
    and mid: "\<forall>r\<in>set mid. \<not> full_fill r"
  shows "length (filter full_fill pre) < length (cycles rows) \<and>
         cycles rows ! length (filter full_fill pre) = make_cycle (s # mid @ [e])"
proof -
  obtain C where C: "length C = length (filter full_fill pre)"
    and st1: "foldl cycles_step cycles_init (pre @ [s]) = \<lparr>cycles_acc = C, buffer = [s], last_full = Some s\<rparr>"
    using after_anchor[OF s, of pre] by blast
  have st2: "foldl cycles_step cycles_init (pre @ [s] @ mid) =
      \<lparr>cycles_acc = C, buffer = s # mid, last_full = Some s\<rparr>"
    using run_partials[OF mid, of "foldl cycles_step cycles_init (pre @ [s])"] st1
    by (simp del: foldl_append add: foldl_append[of _ _ "pre @ [s]" mid, simplified])
  have st3: "foldl cycles_step cycles_init (pre @ [s] @ mid @ [e]) =
      \<lparr>cycles_acc = C @ [make_cycle (s # mid @ [e])], buffer = [e], last_full = Some e\<rparr>"
  proof -
    have "foldl cycles_step cycles_init (pre @ [s] @ mid @ [e]) =
          cycles_step (foldl cycles_step cycles_init (pre @ [s] @ mid)) e"
      by simp
    then show ?thesis using st2 e by (simp only: cycles_step_next_full[OF e, of _ s] loop_state.simps) simp
  qed
  obtain ext where ext: "cycles_acc (foldl cycles_step (foldl cycles_step cycles_init (pre @ [s] @ mid @ [e])) post)
      = cycles_acc (foldl cycles_step cycles_init (pre @ [s] @ mid @ [e])) @ ext"
    using run_acc_grows by blast
  have "rows = (pre @ [s] @ mid @ [e]) @ post" using rows by simp
  then have "cycles rows = (C @ [make_cycle (s # mid @ [e])]) @ ext"
    using ext st3 unfolding cycles_def by (simp only: foldl_append loop_state.simps)
  then show ?thesis using C by (simp add: nth_append)
qed

lemma nth_full_split:
  "k < length (filter P xs) \<Longrightarrow> \<exists>pre s post. xs = pre @ s # post \<and> P s \<and> length (filter P pre) = k"
proof (induction xs arbitrary: k)
  case Nil
  then show ?case by simp
next
  case (Cons x xs)
  show ?case
  proof (cases "P x")
    case False
    then have "k < length (filter P xs)" using Cons.prems by simp
    then obtain pre s post where "xs = pre @ s # post" "P s" "length (filter P pre) = k"
      using Cons.IH by blast
    then have "x # xs = (x # pre) @ s # post \<and> P s \<and> length (filter P (x # pre)) = k"
      using False by simp
    then show ?thesis by blast
  next
    case True
    show ?thesis
    proof (cases k)
      case 0
      then have "x # xs = [] @ x # xs \<and> P x \<and> length (filter P []) = k" using True by simp
      then show ?thesis by blast
    next
      case (Suc j)
      then have "j < length (filter P xs)" using Cons.prems True by simp
      then obtain pre s post where "xs = pre @ s # post" "P s" "length (filter P pre) = j"
        using Cons.IH by blast
      then have "x # xs = (x # pre) @ s # post \<and> P s \<and> length (filter P (x # pre)) = k"
        using True Suc by simp
      then show ?thesis by blast
    qed
  qed
qed

lemma bounded_exists:
  assumes "k < length (cycles rows)"
  shows "\<exists>pre s mid e post. rows = pre @ s # mid @ e # post \<and> full_fill s \<and> full_fill e \<and>
           (\<forall>r\<in>set mid. \<not> full_fill r) \<and> length (filter full_fill pre) = k"
proof -
  have k: "k + 1 < length (filter full_fill rows)" using assms by (simp add: cycles_length)
  then obtain pre s rest where split1: "rows = pre @ s # rest" "full_fill s" "length (filter full_fill pre) = k"
    using nth_full_split[of k full_fill rows] by auto
  then have "filter full_fill rest \<noteq> []" using k by auto
  then have "\<exists>x\<in>set rest. full_fill x"
    by (simp add: filter_empty_conv)
  then obtain mid e post where split2: "rest = mid @ e # post" "full_fill e" "\<forall>r\<in>set mid. \<not> full_fill r"
    using split_list_first_prop[of rest full_fill] by blast
  have "rows = pre @ s # mid @ e # post" using split1 split2 by simp
  then show ?thesis using split1 split2 by blast
qed

section \<open>Number of cycles\<close>

text \<open>
  C1. For every input, the number of cycles returned by \<^verbatim>\<open>cycles\<close> is
  \<open>max(0, number of full-fill rows - 1)\<close>; in particular an input with at most one
  full-fill row gives the empty list.
\<close>

theorem cycles_count:
  "int (length (cycles rows)) = max 0 (int (length (filter full_fill rows)) - 1) \<and>
   (length (filter full_fill rows) \<le> 1 \<longrightarrow> cycles rows = [])"
proof -
  have len: "length (cycles rows) = length (filter full_fill rows) - 1"
    by (rule cycles_length)
  have "int (length (cycles rows)) = max 0 (int (length (filter full_fill rows)) - 1)"
    using len by linarith
  moreover have "length (filter full_fill rows) \<le> 1 \<longrightarrow> cycles rows = []"
    using len by auto
  ultimately show ?thesis by blast
qed

theorem cycles_count_witness:
  "length (filter full_fill log_single) \<le> 1 \<and> cycles log_single = [] \<and>
   int (length (cycles log_three)) = 2"
proof -
  have h: "length (filter full_fill log_single) \<le> 1"
    by (simp add: log_single_def fill_def)
  have n: "int (length (filter full_fill log_three)) = 3"
    by (simp add: log_three_def fill_def)
  show ?thesis
    using cycles_count[of log_single] cycles_count[of log_three] h n by simp
qed



section \<open>What one cycle contains\<close>

lemma make_cycle_bounds:
  "start_date (make_cycle (s # mid @ [e])) = date s"
  "end_date (make_cycle (s # mid @ [e])) = date e"
  "start_odo (make_cycle (s # mid @ [e])) = odometer_km s"
  "end_odo (make_cycle (s # mid @ [e])) = odometer_km e"
  "distance_km (make_cycle (s # mid @ [e])) = odometer_km e - odometer_km s"
  by (simp_all add: make_cycle_def Let_def)

lemma make_cycle_sums:
  "liters_used (make_cycle (s # mid @ [e])) = sum_list (map liters (mid @ [e]))"
  "cost_total_sek (make_cycle (s # mid @ [e])) =
     sum_list (map (\<lambda>x. liters x * price_per_liter_sek x) (mid @ [e]))"
  "fills_count (make_cycle (s # mid @ [e])) = int (length (mid @ [e]))"
  by (simp_all add: make_cycle_def Let_def py_sum_sum_list)

lemma make_cycle_rates:
  "l_per_100km (make_cycle rs) =
     (if distance_km (make_cycle rs) > 0 \<and> liters_used (make_cycle rs) > 0
      then Some (liters_used (make_cycle rs) / distance_km (make_cycle rs) * 100) else None)"
  "cost_per_km_sek (make_cycle rs) =
     (if distance_km (make_cycle rs) > 0 \<and> liters_used (make_cycle rs) > 0
      then Some (cost_total_sek (make_cycle rs) / distance_km (make_cycle rs)) else None)"
  by (simp_all add: make_cycle_def Let_def)

lemma cycles_nth_chunk:
  assumes "k < length (cycles rows)"
  shows "\<exists>pre s mid e post. rows = pre @ s # mid @ e # post \<and> full_fill s \<and> full_fill e \<and>
           (\<forall>r\<in>set mid. \<not> full_fill r) \<and> length (filter full_fill pre) = k \<and>
           cycles rows ! k = make_cycle (s # mid @ [e])"
proof -
  obtain pre s mid e post where d: "rows = pre @ s # mid @ e # post" "full_fill s" "full_fill e"
      "\<forall>r\<in>set mid. \<not> full_fill r" "length (filter full_fill pre) = k"
    using bounded_exists[OF assms] by blast
  have "cycles rows ! k = make_cycle (s # mid @ [e])"
    using cycles_nth_bounded[OF d(1) d(2) d(3) d(4)] d(5) by simp
  then show ?thesis using d by blast
qed

lemma cycles_member_chunk:
  assumes "c \<in> set (cycles rows)"
  shows "\<exists>rs. c = make_cycle rs"
proof -
  obtain k where "k < length (cycles rows)" "cycles rows ! k = c"
    using assms by (auto simp: in_set_conv_nth)
  then show ?thesis using cycles_nth_chunk[of k rows] by metis
qed

lemma cycles_consecutive:
  assumes "Suc k < length (cycles rows)"
  shows "\<exists>s mid e mid' e'. cycles rows ! k = make_cycle (s # mid @ [e]) \<and>
           cycles rows ! Suc k = make_cycle (e # mid' @ [e'])"
proof -
  have k: "k < length (cycles rows)" using assms by simp
  obtain pre s mid e post where d: "rows = pre @ s # mid @ e # post" "full_fill s" "full_fill e"
      "\<forall>r\<in>set mid. \<not> full_fill r" "length (filter full_fill pre) = k"
      and ck: "cycles rows ! k = make_cycle (s # mid @ [e])"
    using cycles_nth_chunk[OF k] by blast
  have "Suc (Suc k) < length (filter full_fill rows)"
    using assms by (simp add: cycles_length)
  moreover have "filter full_fill mid = []" using d(4) by (simp add: filter_empty_conv)
  ultimately have "filter full_fill post \<noteq> []" using d by auto
  then have "\<exists>x\<in>set post. full_fill x" by (simp add: filter_empty_conv)
  then obtain mid' e' post' where p: "post = mid' @ e' # post'" "full_fill e'"
      "\<forall>r\<in>set mid'. \<not> full_fill r"
    using split_list_first_prop[of post full_fill] by blast
  have rows': "rows = (pre @ s # mid) @ e # mid' @ e' # post'" using d(1) p(1) by simp
  have cnt: "length (filter full_fill (pre @ s # mid)) = Suc k"
    using d \<open>filter full_fill mid = []\<close> by simp
  have "cycles rows ! Suc k = make_cycle (e # mid' @ [e'])"
    using cycles_nth_bounded[OF rows' d(3) p(2) p(3)] cnt by simp
  then show ?thesis using ck by blast
qed

subsection \<open>The sample logs, evaluated\<close>

lemma cycles_log_partial:
  "cycles log_partial =
     [\<lparr>start_date = \<lparr>year = 2025, month = 1, day = 1\<rparr>,
       end_date = \<lparr>year = 2025, month = 2, day = 1\<rparr>,
       start_odo = 1000, end_odo = 1500, distance_km = 500, liters_used = 40,
       l_per_100km = Some 8, cost_total_sek = 800, cost_per_km_sek = Some (8/5),
       fills_count = 2\<rparr>]"
  by (simp add: cycles_def cycles_init_def cycles_step_def make_cycle_def py_sum_def
      log_partial_def fill_def Let_def)

lemma cycles_log_same_odo:
  "cycles log_same_odo =
     [\<lparr>start_date = \<lparr>year = 2025, month = 1, day = 1\<rparr>,
       end_date = \<lparr>year = 2025, month = 1, day = 2\<rparr>,
       start_odo = 1000, end_odo = 1000, distance_km = 0, liters_used = 10,
       l_per_100km = None, cost_total_sek = 200, cost_per_km_sek = None,
       fills_count = 1\<rparr>]"
  by (simp add: cycles_def cycles_init_def cycles_step_def make_cycle_def py_sum_def
      log_same_odo_def fill_def Let_def)

lemma cycles_log_rollback:
  "cycles log_rollback =
     [\<lparr>start_date = \<lparr>year = 2025, month = 1, day = 1\<rparr>,
       end_date = \<lparr>year = 2025, month = 1, day = 2\<rparr>,
       start_odo = 1000, end_odo = 900, distance_km = - 100, liters_used = 10,
       l_per_100km = None, cost_total_sek = 200, cost_per_km_sek = None,
       fills_count = 1\<rparr>]"
  by (simp add: cycles_def cycles_init_def cycles_step_def make_cycle_def py_sum_def
      log_rollback_def fill_def Let_def)

lemma cycles_log_three:
  "cycles log_three =
     [\<lparr>start_date = \<lparr>year = 2025, month = 1, day = 1\<rparr>,
       end_date = \<lparr>year = 2025, month = 2, day = 1\<rparr>,
       start_odo = 1000, end_odo = 1500, distance_km = 500, liters_used = 40,
       l_per_100km = Some 8, cost_total_sek = 800, cost_per_km_sek = Some (8/5),
       fills_count = 2\<rparr>,
      \<lparr>start_date = \<lparr>year = 2025, month = 2, day = 1\<rparr>,
       end_date = \<lparr>year = 2025, month = 2, day = 20\<rparr>,
       start_odo = 1500, end_odo = 1700, distance_km = 200, liters_used = 20,
       l_per_100km = Some 10, cost_total_sek = 420, cost_per_km_sek = Some (21/10),
       fills_count = 1\<rparr>]"
  by (simp add: cycles_def cycles_init_def cycles_step_def make_cycle_def py_sum_def
      log_three_def fill_def Let_def)

subsection \<open>Litres and cost\<close>

text \<open>
  C2. Every cycle returned by \<^verbatim>\<open>cycles\<close> is bounded by two consecutive full-fill rows
  \<open>s\<close> and \<open>e\<close> of the input, with only partial fills \<open>mid\<close> between them; cycle \<open>k\<close>
  starts at the full fill that has \<open>k\<close> full fills before it. Its \<open>liters_used\<close> is the sum
  of \<open>liters\<close> over \<open>mid\<close> and \<open>e\<close> (the rows strictly after \<open>s\<close> up to and including
  \<open>e\<close>; the litres of \<open>s\<close> are left out), and its \<open>cost_total_sek\<close> is the sum of
  \<open>liters * price_per_liter_sek\<close> over the same rows.
\<close>

theorem cycle_sums:
  "k < length (cycles rows) \<Longrightarrow>
   \<exists>pre s mid e post.
     rows = pre @ s # mid @ e # post \<and> full_fill s \<and> full_fill e \<and>
     (\<forall>r\<in>set mid. \<not> full_fill r) \<and> length (filter full_fill pre) = k \<and>
     liters_used (cycles rows ! k) = sum_list (map liters (mid @ [e])) \<and>
     cost_total_sek (cycles rows ! k) =
       sum_list (map (\<lambda>x. liters x * price_per_liter_sek x) (mid @ [e]))"
proof -
  assume "k < length (cycles rows)"
  then obtain pre s mid e post where d: "rows = pre @ s # mid @ e # post" "full_fill s" "full_fill e"
      "\<forall>r\<in>set mid. \<not> full_fill r" "length (filter full_fill pre) = k"
      and ck: "cycles rows ! k = make_cycle (s # mid @ [e])"
    using cycles_nth_chunk by blast
  have "liters_used (cycles rows ! k) = sum_list (map liters (mid @ [e]))"
    by (simp only: ck make_cycle_sums)
  moreover have "cost_total_sek (cycles rows ! k) =
       sum_list (map (\<lambda>x. liters x * price_per_liter_sek x) (mid @ [e]))"
    by (simp only: ck make_cycle_sums)
  ultimately show ?thesis using d by blast
qed

theorem cycle_sums_witness:
  "0 < length (cycles log_partial) \<and>
   (\<exists>pre s mid e post.
     log_partial = pre @ s # mid @ e # post \<and> full_fill s \<and> full_fill e \<and>
     (\<forall>r\<in>set mid. \<not> full_fill r) \<and> length (filter full_fill pre) = 0 \<and>
     liters_used (cycles log_partial ! 0) = sum_list (map liters (mid @ [e])) \<and>
     cost_total_sek (cycles log_partial ! 0) =
       sum_list (map (\<lambda>x. liters x * price_per_liter_sek x) (mid @ [e])))"
proof -
  have h: "0 < length (cycles log_partial)" by (simp add: cycles_log_partial)
  show ?thesis using cycle_sums[OF h] h by blast
qed

subsection \<open>Number of fills\<close>

text \<open>
  C9. For every cycle, \<open>fills_count\<close> is the number of rows strictly after the starting full
  fill up to and including the ending full fill: the partial fills between the two bounding
  full fills, plus one for the ending full fill.
\<close>

theorem cycle_fills_count:
  "k < length (cycles rows) \<Longrightarrow>
   \<exists>pre s mid e post.
     rows = pre @ s # mid @ e # post \<and> full_fill s \<and> full_fill e \<and>
     (\<forall>r\<in>set mid. \<not> full_fill r) \<and> length (filter full_fill pre) = k \<and>
     fills_count (cycles rows ! k) = int (length (mid @ [e])) \<and>
     fills_count (cycles rows ! k) = int (length mid) + 1"
proof -
  assume "k < length (cycles rows)"
  then obtain pre s mid e post where d: "rows = pre @ s # mid @ e # post" "full_fill s" "full_fill e"
      "\<forall>r\<in>set mid. \<not> full_fill r" "length (filter full_fill pre) = k"
      and ck: "cycles rows ! k = make_cycle (s # mid @ [e])"
    using cycles_nth_chunk by blast
  have "fills_count (cycles rows ! k) = int (length (mid @ [e]))"
    by (simp only: ck make_cycle_sums)
  moreover from this have "fills_count (cycles rows ! k) = int (length mid) + 1" by simp
  ultimately show ?thesis using d by blast
qed

theorem cycle_fills_count_witness:
  "0 < length (cycles log_partial) \<and>
   (\<exists>pre s mid e post.
     log_partial = pre @ s # mid @ e # post \<and> full_fill s \<and> full_fill e \<and>
     (\<forall>r\<in>set mid. \<not> full_fill r) \<and> length (filter full_fill pre) = 0 \<and>
     fills_count (cycles log_partial ! 0) = int (length (mid @ [e])) \<and>
     fills_count (cycles log_partial ! 0) = int (length mid) + 1)"
proof -
  have h: "0 < length (cycles log_partial)" by (simp add: cycles_log_partial)
  show ?thesis using cycle_fills_count[OF h] h by blast
qed

subsection \<open>Boundaries\<close>

text \<open>
  C10. Consecutive cycles chain: the end date and end odometer of cycle \<open>k\<close> are the start
  date and start odometer of cycle \<open>k + 1\<close>. The start and the end of every cycle are taken
  from full-fill rows of the input.
\<close>

theorem cycles_chain:
  "(Suc k < length (cycles rows) \<longrightarrow>
      end_date (cycles rows ! k) = start_date (cycles rows ! Suc k) \<and>
      end_odo (cycles rows ! k) = start_odo (cycles rows ! Suc k)) \<and>
   (k < length (cycles rows) \<longrightarrow>
      (\<exists>pre s mid e post.
         rows = pre @ s # mid @ e # post \<and> full_fill s \<and> full_fill e \<and>
         (\<forall>r\<in>set mid. \<not> full_fill r) \<and> length (filter full_fill pre) = k \<and>
         start_date (cycles rows ! k) = date s \<and> start_odo (cycles rows ! k) = odometer_km s \<and>
         end_date (cycles rows ! k) = date e \<and> end_odo (cycles rows ! k) = odometer_km e))"
proof (intro conjI impI)
  assume "Suc k < length (cycles rows)"
  then obtain s mid e mid' e' where c: "cycles rows ! k = make_cycle (s # mid @ [e])"
      "cycles rows ! Suc k = make_cycle (e # mid' @ [e'])"
    using cycles_consecutive by blast
  show "end_date (cycles rows ! k) = start_date (cycles rows ! Suc k)"
    by (simp only: c make_cycle_bounds)
  show "end_odo (cycles rows ! k) = start_odo (cycles rows ! Suc k)"
    by (simp only: c make_cycle_bounds)
next
  assume "k < length (cycles rows)"
  then obtain pre s mid e post where d: "rows = pre @ s # mid @ e # post" "full_fill s" "full_fill e"
      "\<forall>r\<in>set mid. \<not> full_fill r" "length (filter full_fill pre) = k"
      and ck: "cycles rows ! k = make_cycle (s # mid @ [e])"
    using cycles_nth_chunk by blast
  have "start_date (cycles rows ! k) = date s" "start_odo (cycles rows ! k) = odometer_km s"
    "end_date (cycles rows ! k) = date e" "end_odo (cycles rows ! k) = odometer_km e"
    by (simp_all only: ck make_cycle_bounds)
  then show "\<exists>pre s mid e post.
         rows = pre @ s # mid @ e # post \<and> full_fill s \<and> full_fill e \<and>
         (\<forall>r\<in>set mid. \<not> full_fill r) \<and> length (filter full_fill pre) = k \<and>
         start_date (cycles rows ! k) = date s \<and> start_odo (cycles rows ! k) = odometer_km s \<and>
         end_date (cycles rows ! k) = date e \<and> end_odo (cycles rows ! k) = odometer_km e"
    using d by blast
qed

theorem cycles_chain_witness:
  "Suc 0 < length (cycles log_three) \<and>
   end_date (cycles log_three ! 0) = start_date (cycles log_three ! Suc 0) \<and>
   end_odo (cycles log_three ! 0) = start_odo (cycles log_three ! Suc 0) \<and>
   (\<exists>pre s mid e post.
         log_three = pre @ s # mid @ e # post \<and> full_fill s \<and> full_fill e \<and>
         (\<forall>r\<in>set mid. \<not> full_fill r) \<and> length (filter full_fill pre) = 0 \<and>
         start_date (cycles log_three ! 0) = date s \<and> start_odo (cycles log_three ! 0) = odometer_km s \<and>
         end_date (cycles log_three ! 0) = date e \<and> end_odo (cycles log_three ! 0) = odometer_km e)"
proof -
  have h: "Suc 0 < length (cycles log_three)" by (simp add: cycles_log_three)
  have h0: "0 < length (cycles log_three)" by (simp add: cycles_log_three)
  show ?thesis using cycles_chain[of 0 log_three] h h0 by blast
qed

section \<open>Rates\<close>

text \<open>
  C3. For every cycle, \<open>l_per_100km\<close> is \<open>liters_used / distance_km * 100\<close> and
  \<open>cost_per_km_sek\<close> is \<open>cost_total_sek / distance_km\<close> exactly when \<open>distance_km > 0\<close>
  and \<open>liters_used > 0\<close>; otherwise both are \<open>None\<close>. In particular a cycle with
  \<open>distance_km \<le> 0\<close> has both rates \<open>None\<close>, and a consumption rate that is present is
  positive.
\<close>

theorem cycle_rates:
  "c \<in> set (cycles rows) \<Longrightarrow>
   (if distance_km c > 0 \<and> liters_used c > 0
    then l_per_100km c = Some (liters_used c / distance_km c * 100) \<and>
         cost_per_km_sek c = Some (cost_total_sek c / distance_km c)
    else l_per_100km c = None \<and> cost_per_km_sek c = None) \<and>
   (distance_km c \<le> 0 \<longrightarrow> l_per_100km c = None \<and> cost_per_km_sek c = None) \<and>
   (\<forall>r. l_per_100km c = Some r \<longrightarrow> 0 < r)"
proof -
  assume "c \<in> set (cycles rows)"
  then obtain rs where c: "c = make_cycle rs" using cycles_member_chunk by blast
  show ?thesis
    unfolding c by (simp add: make_cycle_rates)
qed

theorem cycle_rates_witness:
  "hd (cycles log_same_odo) \<in> set (cycles log_same_odo) \<and>
   distance_km (hd (cycles log_same_odo)) \<le> 0 \<and>
   l_per_100km (hd (cycles log_same_odo)) = None \<and>
   cost_per_km_sek (hd (cycles log_same_odo)) = None \<and>
   hd (cycles log_partial) \<in> set (cycles log_partial) \<and>
   l_per_100km (hd (cycles log_partial)) = Some 8 \<and>
   cost_per_km_sek (hd (cycles log_partial)) = Some (8 / 5)"
proof -
  have m: "hd (cycles log_same_odo) \<in> set (cycles log_same_odo)"
    by (simp add: cycles_log_same_odo)
  have d: "distance_km (hd (cycles log_same_odo)) \<le> 0"
    by (simp add: cycles_log_same_odo)
  have m2: "hd (cycles log_partial) \<in> set (cycles log_partial)"
    by (simp add: cycles_log_partial)
  have v: "distance_km (hd (cycles log_partial)) = 500" "liters_used (hd (cycles log_partial)) = 40"
    "cost_total_sek (hd (cycles log_partial)) = 800"
    by (simp_all add: cycles_log_partial)
  have a: "l_per_100km (hd (cycles log_same_odo)) = None \<and>
   cost_per_km_sek (hd (cycles log_same_odo)) = None"
    using cycle_rates[OF m] d by auto
  have b: "l_per_100km (hd (cycles log_partial)) = Some 8 \<and>
   cost_per_km_sek (hd (cycles log_partial)) = Some (8 / 5)"
    using cycle_rates[OF m2] v by auto
  show ?thesis using m d m2 a b by blast
qed

subsection \<open>Odometer going backwards\<close>

text \<open>
  C4, as stated, asks for a data-quality flag on a cycle with negative distance that sets it
  apart from an ordinary degenerate cycle. The cycle dictionary has the ten fields of
  \<^typ>\<open>cycle\<close> and no flag: the cycle of the log whose odometer goes from 1000 back to 900
  and the cycle of the log whose odometer stays at 1000 agree in every field other than
  \<open>end_odo\<close> and \<open>distance_km\<close>.
\<close>

theorem rollback_no_flag_counterexample:
  "cycles log_rollback =
     [\<lparr>start_date = \<lparr>year = 2025, month = 1, day = 1\<rparr>,
       end_date = \<lparr>year = 2025, month = 1, day = 2\<rparr>,
       start_odo = 1000, end_odo = 900, distance_km = - 100, liters_used = 10,
       l_per_100km = None, cost_total_sek = 200, cost_per_km_sek = None,
       fills_count = 1\<rparr>] \<and>
   cycles log_same_odo =
     [\<lparr>start_date = \<lparr>year = 2025, month = 1, day = 1\<rparr>,
       end_date = \<lparr>year = 2025, month = 1, day = 2\<rparr>,
       start_odo = 1000, end_odo = 1000, distance_km = 0, liters_used = 10,
       l_per_100km = None, cost_total_sek = 200, cost_per_km_sek = None,
       fills_count = 1\<rparr>] \<and>
   (hd (cycles log_rollback))\<lparr>end_odo := 1000, distance_km := 0\<rparr> =
   hd (cycles log_same_odo)"
  by (simp add: cycles_log_rollback cycles_log_same_odo)

text \<open>
  C4, amended. For every cycle with negative \<open>distance_km\<close> both rates are \<open>None\<close>; the
  case shows only in the odometer figures themselves: \<open>distance_km\<close> is
  \<open>end_odo - start_odo\<close>, so the end reading is below the start reading.
\<close>

theorem rollback_rates_unavailable:
  "c \<in> set (cycles rows) \<Longrightarrow> distance_km c < 0 \<Longrightarrow>
   l_per_100km c = None \<and> cost_per_km_sek c = None \<and>
   distance_km c = end_odo c - start_odo c \<and> end_odo c < start_odo c"
proof -
  assume m: "c \<in> set (cycles rows)" and neg: "distance_km c < 0"
  obtain rs where c: "c = make_cycle rs" using m cycles_member_chunk by blast
  have dist: "distance_km c = end_odo c - start_odo c"
    unfolding c by (simp add: make_cycle_def Let_def)
  have "l_per_100km c = None \<and> cost_per_km_sek c = None"
    using neg unfolding c by (simp add: make_cycle_rates)
  then show ?thesis using dist neg by simp
qed

theorem rollback_rates_unavailable_witness:
  "hd (cycles log_rollback) \<in> set (cycles log_rollback) \<and>
   distance_km (hd (cycles log_rollback)) < 0 \<and>
   l_per_100km (hd (cycles log_rollback)) = None \<and>
   cost_per_km_sek (hd (cycles log_rollback)) = None \<and>
   end_odo (hd (cycles log_rollback)) < start_odo (hd (cycles log_rollback))"
proof -
  have m: "hd (cycles log_rollback) \<in> set (cycles log_rollback)"
    by (simp add: cycles_log_rollback)
  have d: "distance_km (hd (cycles log_rollback)) < 0"
    by (simp add: cycles_log_rollback)
  show ?thesis using rollback_rates_unavailable[OF m d] m d by blast
qed

section \<open>Failures of stats\<close>

lemma py_sum_opt_defined:
  "\<forall>x\<in>set xs. x \<noteq> None \<Longrightarrow> py_sum_opt acc xs = Inr (acc + sum_list (map the xs))"
  by (induction acc xs rule: py_sum_opt.induct) auto

lemma cycles_rates_together:
  "c \<in> set (cycles rows) \<Longrightarrow> (cost_per_km_sek c = None) = (l_per_100km c = None)"
proof -
  assume "c \<in> set (cycles rows)"
  then obtain rs where c: "c = make_cycle rs" using cycles_member_chunk by blast
  show ?thesis unfolding c by (simp add: make_cycle_rates)
qed

text \<open>
  A closed form of \<^verbatim>\<open>stats\<close>: the only failure is the formatting of the latest cycle;
  once that has passed, the list \<open>v\<close> is not empty and holds no \<open>None\<close>, so neither
  division and neither sum fails.
\<close>

lemma stats_value:
  "stats rows =
     (if length rows < 2 then Inr NeedMoreRows
      else if cycles rows = [] then Inr NeedTwoFulls
      else if l_per_100km (last (cycles rows)) = None then Inl TypeError
      else Inr (Report (last (cycles rows))
             \<lparr>total_km = sum_list (map distance_km (filter (\<lambda>c. l_per_100km c \<noteq> None) (cycles rows))),
              total_l = sum_list (map liters_used (filter (\<lambda>c. l_per_100km c \<noteq> None) (cycles rows))),
              total_cost = sum_list (map cost_total_sek (filter (\<lambda>c. l_per_100km c \<noteq> None) (cycles rows))),
              avg_l100 = sum_list (map (\<lambda>c. the (l_per_100km c)) (filter (\<lambda>c. l_per_100km c \<noteq> None) (cycles rows)))
                         / real (length (filter (\<lambda>c. l_per_100km c \<noteq> None) (cycles rows))),
              avg_cost_km = sum_list (map (\<lambda>c. the (cost_per_km_sek c)) (filter (\<lambda>c. l_per_100km c \<noteq> None) (cycles rows)))
                         / real (length (filter (\<lambda>c. l_per_100km c \<noteq> None) (cycles rows)))\<rparr>))"
proof (cases "length rows < 2")
  case True
  then show ?thesis by (simp add: stats_def)
next
  case len: False
  show ?thesis
  proof (cases "cycles rows = []")
    case True
    then show ?thesis using len by (simp add: stats_def)
  next
    case ne: False
    let ?v = "filter (\<lambda>c. l_per_100km c \<noteq> None) (cycles rows)"
    have lastin: "last (cycles rows) \<in> set (cycles rows)" using ne by simp
    show ?thesis
    proof (cases "l_per_100km (last (cycles rows))")
      case None
      then show ?thesis using ne len by (simp add: stats_def Let_def fmt_float_def)
    next
      case (Some r)
      then have "cost_per_km_sek (last (cycles rows)) \<noteq> None"
        using cycles_rates_together[OF lastin] by simp
      then obtain r2 where r2: "cost_per_km_sek (last (cycles rows)) = Some r2" by auto
      have "last (cycles rows) \<in> set ?v" using lastin Some by simp
      then have "0 < length ?v" by (rule length_pos_if_in_set)
      then have vne: "length ?v \<noteq> 0" by simp
      have "\<forall>x\<in>set (map l_per_100km ?v). x \<noteq> None" by auto
      then have s1: "py_sum_opt 0 (map l_per_100km ?v) = Inr (sum_list (map (\<lambda>c. the (l_per_100km c)) ?v))"
        using py_sum_opt_defined[of "map l_per_100km ?v" 0] by (simp add: comp_def)
      have "\<forall>x\<in>set (map cost_per_km_sek ?v). x \<noteq> None"
      proof
        fix x assume "x \<in> set (map cost_per_km_sek ?v)"
        then obtain c where c: "c \<in> set (cycles rows)" "l_per_100km c \<noteq> None"
            "x = cost_per_km_sek c" by auto
        then show "x \<noteq> None" using cycles_rates_together[OF c(1)] by simp
      qed
      then have s2: "py_sum_opt 0 (map cost_per_km_sek ?v) = Inr (sum_list (map (\<lambda>c. the (cost_per_km_sek c)) ?v))"
        using py_sum_opt_defined[of "map cost_per_km_sek ?v" 0] by (simp add: comp_def)
      have "stats rows = Inr (Report (last (cycles rows))
             \<lparr>total_km = py_sum (map distance_km ?v),
              total_l = py_sum (map liters_used ?v),
              total_cost = py_sum (map cost_total_sek ?v),
              avg_l100 = sum_list (map (\<lambda>c. the (l_per_100km c)) ?v) / real (length ?v),
              avg_cost_km = sum_list (map (\<lambda>c. the (cost_per_km_sek c)) ?v) / real (length ?v)\<rparr>)"
        unfolding stats_def Let_def using len ne vne
        by (simp only: if_False Some r2 fmt_float_def option.case sum.case s1 s2 py_div_len_def)
      then show ?thesis using len ne Some by (simp add: py_sum_sum_list)
    qed
  qed
qed

lemma stats_raises_iff:
  "stats rows = Inl e \<longleftrightarrow>
     e = TypeError \<and> 2 \<le> length rows \<and> cycles rows \<noteq> [] \<and>
     l_per_100km (last (cycles rows)) = None"
  by (subst stats_value) auto

text \<open>
  The sibling \<^verbatim>\<open>show_last_cycle_consumption\<close> tests for \<^verbatim>\<open>None\<close> before it formats, and
  never fails.
\<close>

lemma show_last_never_raises: "\<exists>out. show_last_cycle_consumption rows = Inr out"
proof (cases "cycles rows = []")
  case True
  then show ?thesis by (simp add: show_last_cycle_consumption_def)
next
  case ne: False
  then have lastin: "last (cycles rows) \<in> set (cycles rows)" by simp
  show ?thesis
  proof (cases "l_per_100km (last (cycles rows))")
    case None
    then show ?thesis using ne by (simp add: show_last_cycle_consumption_def Let_def)
  next
    case (Some r)
    then have "cost_per_km_sek (last (cycles rows)) \<noteq> None"
      using cycles_rates_together[OF lastin] by simp
    then obtain r2 where "cost_per_km_sek (last (cycles rows)) = Some r2" by auto
    then show ?thesis using ne Some
      by (simp add: show_last_cycle_consumption_def Let_def fmt_float_def)
  qed
qed

text \<open>
  C5 says that nothing fails on a well-typed log and that the aggregate is reported as
  unavailable when no cycle has a rate. On the log with two full fills at the same odometer
  reading no cycle has a rate, and \<^verbatim>\<open>stats\<close> fails with \<^verbatim>\<open>TypeError\<close> at the f-string of
  lines 155-157.
\<close>

theorem stats_degenerate_raises:
  "stats log_same_odo = Inl TypeError \<and>
   filter (\<lambda>c. l_per_100km c \<noteq> None) (cycles log_same_odo) = []"
proof -
  have "l_per_100km (last (cycles log_same_odo)) = None" "cycles log_same_odo \<noteq> []"
    by (simp_all add: cycles_log_same_odo)
  moreover have "\<not> length log_same_odo < 2" by (simp add: log_same_odo_def)
  ultimately have "stats log_same_odo = Inl TypeError"
    by (subst stats_value) simp
  moreover have "filter (\<lambda>c. l_per_100km c \<noteq> None) (cycles log_same_odo) = []"
    by (simp add: cycles_log_same_odo)
  ultimately show ?thesis by blast
qed

section \<open>Totals and averages of stats\<close>

lemma stats_log_three:
  "stats log_three =
     Inr (Report
       \<lparr>start_date = \<lparr>year = 2025, month = 2, day = 1\<rparr>,
        end_date = \<lparr>year = 2025, month = 2, day = 20\<rparr>,
        start_odo = 1500, end_odo = 1700, distance_km = 200, liters_used = 20,
        l_per_100km = Some 10, cost_total_sek = 420, cost_per_km_sek = Some (21/10),
        fills_count = 1\<rparr>
       \<lparr>total_km = 700, total_l = 60, total_cost = 1220, avg_l100 = 9,
        avg_cost_km = 37/20\<rparr>)"
proof -
  have "\<not> length log_three < 2" by (simp add: log_three_def)
  then show ?thesis
    by (subst stats_value) (simp add: cycles_log_three)
qed

text \<open>
  C6. Whenever \<^verbatim>\<open>stats\<close> prints its totals, they are taken over the list \<open>v\<close> of the
  cycles whose \<open>l_per_100km\<close> is not \<open>None\<close>: \<open>avg_l100\<close> is the arithmetic mean of
  their \<open>l_per_100km\<close>, \<open>avg_cost_km\<close> the arithmetic mean of their \<open>cost_per_km_sek\<close>
  (all of which are present), and \<open>total_km\<close>, \<open>total_l\<close>, \<open>total_cost\<close> are the sums of
  \<open>distance_km\<close>, \<open>liters_used\<close> and \<open>cost_total_sek\<close> over \<open>v\<close>. On the sample log
  the mean of the rates is 9, whereas the pooled 60 litres over 700 km is not.
\<close>

theorem stats_totals:
  "stats rows = Inr (Report latest t) \<Longrightarrow>
   (let v = filter (\<lambda>c. l_per_100km c \<noteq> None) (cycles rows) in
      v \<noteq> [] \<and>
      (\<forall>c\<in>set v. l_per_100km c \<noteq> None \<and> cost_per_km_sek c \<noteq> None) \<and>
      avg_l100 t = sum_list (map (\<lambda>c. the (l_per_100km c)) v) / real (length v) \<and>
      avg_cost_km t = sum_list (map (\<lambda>c. the (cost_per_km_sek c)) v) / real (length v) \<and>
      total_km t = sum_list (map distance_km v) \<and>
      total_l t = sum_list (map liters_used v) \<and>
      total_cost t = sum_list (map cost_total_sek v))"
proof -
  assume a: "stats rows = Inr (Report latest t)"
  let ?v = "filter (\<lambda>c. l_per_100km c \<noteq> None) (cycles rows)"
  have len: "\<not> length rows < 2"
  proof
    assume "length rows < 2"
    then have "stats rows = Inr NeedMoreRows" by (simp add: stats_value)
    then show False using a by simp
  qed
  have ne: "cycles rows \<noteq> []"
  proof
    assume "cycles rows = []"
    then have "stats rows = Inr NeedTwoFulls" using len by (simp add: stats_value)
    then show False using a by simp
  qed
  have some: "l_per_100km (last (cycles rows)) \<noteq> None"
  proof
    assume "l_per_100km (last (cycles rows)) = None"
    then have "stats rows = Inl TypeError" using len ne by (simp add: stats_value)
    then show False using a by simp
  qed
  have t: "t = \<lparr>total_km = sum_list (map distance_km ?v),
              total_l = sum_list (map liters_used ?v),
              total_cost = sum_list (map cost_total_sek ?v),
              avg_l100 = sum_list (map (\<lambda>c. the (l_per_100km c)) ?v) / real (length ?v),
              avg_cost_km = sum_list (map (\<lambda>c. the (cost_per_km_sek c)) ?v) / real (length ?v)\<rparr>"
  proof -
    have closed: "stats rows = Inr (Report (last (cycles rows))
            \<lparr>total_km = sum_list (map distance_km ?v),
              total_l = sum_list (map liters_used ?v),
              total_cost = sum_list (map cost_total_sek ?v),
              avg_l100 = sum_list (map (\<lambda>c. the (l_per_100km c)) ?v) / real (length ?v),
              avg_cost_km = sum_list (map (\<lambda>c. the (cost_per_km_sek c)) ?v) / real (length ?v)\<rparr>)"
      using len ne some by (subst stats_value) (simp only: if_False)
    have "(Inr (Report latest t) :: error + stats_output) = Inr (Report (last (cycles rows))
            \<lparr>total_km = sum_list (map distance_km ?v),
              total_l = sum_list (map liters_used ?v),
              total_cost = sum_list (map cost_total_sek ?v),
              avg_l100 = sum_list (map (\<lambda>c. the (l_per_100km c)) ?v) / real (length ?v),
              avg_cost_km = sum_list (map (\<lambda>c. the (cost_per_km_sek c)) ?v) / real (length ?v)\<rparr>)"
      by (rule trans[OF a[symmetric] closed])
    then show ?thesis by (simp only: sum.inject stats_output.inject)
  qed
  have "last (cycles rows) \<in> set ?v" using ne some by simp
  then have "0 < length ?v" by (rule length_pos_if_in_set)
  then have vne: "?v \<noteq> []" by simp
  have def: "\<forall>c\<in>set ?v. l_per_100km c \<noteq> None \<and> cost_per_km_sek c \<noteq> None"
  proof
    fix c assume "c \<in> set ?v"
    then have c: "c \<in> set (cycles rows)" "l_per_100km c \<noteq> None" by auto
    then show "l_per_100km c \<noteq> None \<and> cost_per_km_sek c \<noteq> None"
      using cycles_rates_together[OF c(1)] by simp
  qed
  have fields: "avg_l100 t = sum_list (map (\<lambda>c. the (l_per_100km c)) ?v) / real (length ?v)"
    "avg_cost_km t = sum_list (map (\<lambda>c. the (cost_per_km_sek c)) ?v) / real (length ?v)"
    "total_km t = sum_list (map distance_km ?v)"
    "total_l t = sum_list (map liters_used ?v)"
    "total_cost t = sum_list (map cost_total_sek ?v)"
    by (subst t, simp only: totals.simps)+
  show ?thesis unfolding Let_def using vne def fields by blast
qed

theorem stats_totals_witness:
  "stats log_three =
     Inr (Report
       \<lparr>start_date = \<lparr>year = 2025, month = 2, day = 1\<rparr>,
        end_date = \<lparr>year = 2025, month = 2, day = 20\<rparr>,
        start_odo = 1500, end_odo = 1700, distance_km = 200, liters_used = 20,
        l_per_100km = Some 10, cost_total_sek = 420, cost_per_km_sek = Some (21/10),
        fills_count = 1\<rparr>
       \<lparr>total_km = 700, total_l = 60, total_cost = 1220, avg_l100 = 9,
        avg_cost_km = 37/20\<rparr>) \<and>
   (9::real) = sum_list (map (\<lambda>c. the (l_per_100km c))
                 (filter (\<lambda>c. l_per_100km c \<noteq> None) (cycles log_three)))
               / real (length (filter (\<lambda>c. l_per_100km c \<noteq> None) (cycles log_three))) \<and>
   (700::real) = sum_list (map distance_km
                 (filter (\<lambda>c. l_per_100km c \<noteq> None) (cycles log_three))) \<and>
   (9::real) \<noteq> 60 / 700 * 100"
proof -
  note h = stats_log_three
  note t = stats_totals[OF h, unfolded Let_def]
  have a: "(9::real) = sum_list (map (\<lambda>c. the (l_per_100km c))
                 (filter (\<lambda>c. l_per_100km c \<noteq> None) (cycles log_three)))
               / real (length (filter (\<lambda>c. l_per_100km c \<noteq> None) (cycles log_three)))"
    using t by (simp only: totals.simps)
  have b: "(700::real) = sum_list (map distance_km
                 (filter (\<lambda>c. l_per_100km c \<noteq> None) (cycles log_three)))"
    using t by (simp only: totals.simps)
  have c: "(9::real) \<noteq> 60 / 700 * 100" by simp
  show ?thesis using h a b c by (intro conjI)
qed

section \<open>Month summary\<close>

lemma month_loop:
  "foldl (month_step y m) a rows =
     \<lparr>acc_liters = acc_liters a +
        sum_list (map liters (filter (\<lambda>r. year (date r) = y \<and> month (date r) = m) rows)),
      acc_cost = acc_cost a +
        sum_list (map (\<lambda>r. liters r * price_per_liter_sek r)
          (filter (\<lambda>r. year (date r) = y \<and> month (date r) = m) rows)),
      acc_fills = acc_fills a +
        int (length (filter (\<lambda>r. year (date r) = y \<and> month (date r) = m) rows))\<rparr>"
proof (induction rows arbitrary: a)
  case Nil
  then show ?case by simp
next
  case (Cons r rows)
  show ?case
    by (simp add: Cons.IH) (simp add: month_step_def)
qed

lemma month_totals_sums:
  "month_totals rows y m =
     \<lparr>acc_liters =
        sum_list (map liters (filter (\<lambda>r. year (date r) = y \<and> month (date r) = m) rows)),
      acc_cost =
        sum_list (map (\<lambda>r. liters r * price_per_liter_sek r)
          (filter (\<lambda>r. year (date r) = y \<and> month (date r) = m) rows)),
      acc_fills =
        int (length (filter (\<lambda>r. year (date r) = y \<and> month (date r) = m) rows))\<rparr>"
  by (simp add: month_totals_def month_loop)

lemma month_totals_flags:
  "month_totals (map (\<lambda>r. r\<lparr>full_fill := f r\<rparr>) rows) y m = month_totals rows y m"
  by (simp add: month_totals_sums filter_map comp_def)

text \<open>
  C7. For every year \<open>y\<close> and month \<open>m\<close>, the monthly figures are the sum of \<open>liters\<close>,
  the sum of \<open>liters * price_per_liter_sek\<close> and the number of rows, over every row of the
  log dated in that month, full or partial: changing the \<open>full_fill\<close> marks, and with
  them the cycle boundaries, changes nothing. A log that is not empty gets these figures
  printed.
\<close>

theorem month_from_raw_records:
  "month_totals rows y m =
     \<lparr>acc_liters =
        sum_list (map liters (filter (\<lambda>r. year (date r) = y \<and> month (date r) = m) rows)),
      acc_cost =
        sum_list (map (\<lambda>r. liters r * price_per_liter_sek r)
          (filter (\<lambda>r. year (date r) = y \<and> month (date r) = m) rows)),
      acc_fills =
        int (length (filter (\<lambda>r. year (date r) = y \<and> month (date r) = m) rows))\<rparr> \<and>
   month_totals (map (\<lambda>r. r\<lparr>full_fill := f r\<rparr>) rows) y m = month_totals rows y m \<and>
   (rows \<noteq> [] \<longrightarrow> (\<exists>km. month_cmd rows y m = MonthReport (month_totals rows y m) km))"
proof (intro conjI impI)
  show "month_totals rows y m =
     \<lparr>acc_liters =
        sum_list (map liters (filter (\<lambda>r. year (date r) = y \<and> month (date r) = m) rows)),
      acc_cost =
        sum_list (map (\<lambda>r. liters r * price_per_liter_sek r)
          (filter (\<lambda>r. year (date r) = y \<and> month (date r) = m) rows)),
      acc_fills =
        int (length (filter (\<lambda>r. year (date r) = y \<and> month (date r) = m) rows))\<rparr>"
    by (rule month_totals_sums)
  show "month_totals (map (\<lambda>r. r\<lparr>full_fill := f r\<rparr>) rows) y m = month_totals rows y m"
    by (rule month_totals_flags)
next
  assume "rows \<noteq> []"
  then show "\<exists>km. month_cmd rows y m = MonthReport (month_totals rows y m) km"
    by (simp add: month_cmd_def)
qed

theorem month_from_raw_records_witness:
  "log_three \<noteq> [] \<and>
   (\<exists>km. month_cmd log_three 2025 2 =
           MonthReport \<lparr>acc_liters = 55, acc_cost = 1120, acc_fills = 2\<rparr> km) \<and>
   month_totals (map (\<lambda>r. r\<lparr>full_fill := False\<rparr>) log_three) 2025 2 =
     \<lparr>acc_liters = 55, acc_cost = 1120, acc_fills = 2\<rparr>"
proof -
  note t = month_from_raw_records[of log_three 2025 2 "\<lambda>r. False"]
  have ne: "log_three \<noteq> []" by (simp add: log_three_def)
  have v: "month_totals log_three 2025 2 = \<lparr>acc_liters = 55, acc_cost = 1120, acc_fills = 2\<rparr>"
    using t by (simp add: log_three_def fill_def)
  show ?thesis using t ne v by simp
qed

text \<open>
  C8. For every year \<open>y\<close> and month \<open>m\<close>, the distance estimate of line 192 is the sum of
  \<open>distance_km\<close> over exactly the cycles whose \<open>end_date\<close> is in that month; it is printed
  when it is positive. On the sample log the cycle from 1 January to 1 February counts for
  February with all of its 500 km.
\<close>

theorem month_distance_estimate:
  "month_km rows y m =
     sum_list (map distance_km
       (filter (\<lambda>c. year (end_date c) = y \<and> month (end_date c) = m) (cycles rows))) \<and>
   (month_cmd rows y m = NoData \<or>
    month_cmd rows y m =
      MonthReport (month_totals rows y m)
        (if 0 < month_km rows y m then Some (month_km rows y m) else None))"
  by (simp add: month_km_def month_cmd_def py_sum_sum_list)

theorem month_distance_estimate_witness:
  "month_km log_three 2025 2 = 700 \<and> month_km log_three 2025 1 = 0"
  using month_distance_estimate[of log_three 2025 2] month_distance_estimate[of log_three 2025 1]
  by (simp add: cycles_log_three)

end
